theory Spec2Isabelle
  imports Complex_Main
begin

section \<open>Model of the code\<close>

subsection \<open>The chunker (ingest.py, chunk\_text)\<close>

text \<open>
  A Python \<open>str\<close> is a sequence of characters; the chunker only measures and
  slices it, so the model is polymorphic in the character type. The two size
  parameters are Python integers, hence \<open>int\<close>: nothing in \<open>chunk_text\<close>
  restricts their sign.
\<close>

text \<open>
  The slice \<open>xs[start:stop]\<close> with step 1. A negative index counts from the end,
  and both indices are clamped to \<open>0 .. len(xs)\<close>; an empty range gives the empty
  sequence.
\<close>

definition adjust_index :: "int \<Rightarrow> int \<Rightarrow> int" where
  "adjust_index n i = (if i < 0 then max 0 (i + n) else min i n)"

definition slice :: "'a list \<Rightarrow> int \<Rightarrow> int \<Rightarrow> 'a list" where
  "slice xs start stop =
     (let n = int (length xs);
          s = adjust_index n start;
          e = adjust_index n stop
      in take (nat (e - s)) (drop (nat s) xs))"

text \<open>
  The \<open>while start < len(text)\<close> loop of \<open>chunk_text\<close>, with the list of chunks
  built so far and the current \<open>start\<close> as loop state. The loop need not terminate
  (nothing stops \<open>start\<close> from standing still or moving backwards), so it is a
  partial function: \<open>None\<close> is the run that never leaves the loop.
\<close>

partial_function (option) chunk_loop ::
  "'a list \<Rightarrow> int \<Rightarrow> int \<Rightarrow> 'a list list \<Rightarrow> int \<Rightarrow> 'a list list option" where
  "chunk_loop text max_chunk_size overlap_size chunks start =
     (if start < int (length text)
      then chunk_loop text max_chunk_size overlap_size
             (chunks @ [slice text start (start + max_chunk_size)])
             (start + (max_chunk_size - overlap_size))
      else Some chunks)"

declare chunk_loop.simps [code]

definition chunk_text :: "'a list \<Rightarrow> int \<Rightarrow> int \<Rightarrow> 'a list list option" where
  "chunk_text text max_chunk_size overlap_size =
     (if text = [] then Some [] else chunk_loop text max_chunk_size overlap_size [] 0)"

text \<open>
  Two counts of chunks. \<open>ceil_div a b\<close> is the ceiling of \<open>a / b\<close> for a positive
  \<open>b\<close>, cut off at zero; it counts the iterations of the loop in the lemmas below.
  \<open>spec_chunk_count\<close> is the number of chunks as the specification's testable
  property words it, \<open>ceil(max(L - O, 1) / (W - O))\<close>; it is written from the
  specification, not from the code, to be compared with what the code returns.
\<close>

definition ceil_div :: "int \<Rightarrow> int \<Rightarrow> nat" where
  "ceil_div a b = nat ((a + b - 1) div b)"

definition spec_chunk_count :: "int \<Rightarrow> int \<Rightarrow> int \<Rightarrow> int" where
  "spec_chunk_count len w ov = \<lceil>real_of_int (max (len - ov) 1) / real_of_int (w - ov)\<rceil>"

subsection \<open>Exceptions, the outside world and its trace\<close>

text \<open>
  The exceptions this code raises or tells apart. All stand for subclasses of Python's
  \<open>Exception\<close>; each carries its message (\<open>str(e)\<close>).
\<close>

datatype exn =
    ResourceExhausted string
  | JWTError string
  | TypeError string
  | OtherException string

fun str_exn :: "exn \<Rightarrow> string" where
  "str_exn (ResourceExhausted m) = m"
| "str_exn (JWTError m) = m"
| "str_exn (TypeError m) = m"
| "str_exn (OtherException m) = m"

fun is_resource_exhausted :: "exn \<Rightarrow> bool" where
  "is_resource_exhausted (ResourceExhausted m) = True"
| "is_resource_exhausted (JWTError m) = False"
| "is_resource_exhausted (TypeError m) = False"
| "is_resource_exhausted (OtherException m) = False"

text \<open>
  An indexed point as \<open>ingest_book_content\<close> builds it: \<open>PointStruct(id, vector,
  payload)\<close> with the payload dictionary \<open>{file_path, chunk_index, text}\<close>. The
  embedding vector is opaque to this code, so its type is a parameter.
\<close>

record 'c payload =
  pl_file_path :: string
  pl_chunk_index :: nat
  pl_text :: "'c list"

record ('c, 'e) point =
  point_id :: int
  vector :: 'e
  payload :: "'c payload"

text \<open>
  What the code does outside itself is recorded, in order, with its arguments: the
  embedding request, the sleep between attempts, the construction of the index client
  (\<open>NewClient\<close>), the calls on the vector index and the LLM request.
\<close>

datatype ('c, 'e) event =
    EmbedContent "'c list"
  | Sleep int
  | NewClient
  | GetCollections
  | CreateCollection string nat
  | RecreateCollection string nat
  | Upsert string "('c, 'e) point list"
  | Search string 'e nat
  | GenerateContent string

text \<open>
  Modelled from the spec: the vector index service behind the client, which is not
  code of this repository. The index holds named collections, each with its vector
  size and its points. The operations below are the service's side of the calls this
  code makes on it, as section 4.3 of the specification and the life cycle of an
  indexed point describe them: listing, creating (a no-op on the index when the name
  exists), recreating (the old collection and its points are dropped), and upserting
  (a point replaces the stored point of the same id).
\<close>

record ('c, 'e) collection =
  vector_size :: nat
  stored :: "('c, 'e) point list"

type_synonym ('c, 'e) index = "(string \<times> ('c, 'e) collection) list"

definition index_get_collections :: "('c, 'e) index \<Rightarrow> string list" where
  "index_get_collections ix = map fst ix"

definition index_delete_collection :: "string \<Rightarrow> ('c, 'e) index \<Rightarrow> ('c, 'e) index" where
  "index_delete_collection name ix = filter (\<lambda>entry. fst entry \<noteq> name) ix"

definition index_create_collection :: "string \<Rightarrow> nat \<Rightarrow> ('c, 'e) index \<Rightarrow> ('c, 'e) index" where
  "index_create_collection name vsize ix =
     (if name \<in> set (index_get_collections ix) then ix
      else ix @ [(name, \<lparr>vector_size = vsize, stored = []\<rparr>)])"

definition index_recreate_collection :: "string \<Rightarrow> nat \<Rightarrow> ('c, 'e) index \<Rightarrow> ('c, 'e) index" where
  "index_recreate_collection name vsize ix =
     index_create_collection name vsize (index_delete_collection name ix)"

definition replace_points :: "('c, 'e) point list \<Rightarrow> ('c, 'e) point list \<Rightarrow> ('c, 'e) point list" where
  "replace_points old new =
     filter (\<lambda>p. point_id p \<notin> set (map point_id new)) old @ new"

definition index_upsert :: "string \<Rightarrow> ('c, 'e) point list \<Rightarrow> ('c, 'e) index \<Rightarrow> ('c, 'e) index" where
  "index_upsert name pts ix =
     map (\<lambda>entry. if fst entry = name
                   then (fst entry, (snd entry)\<lparr>stored := replace_points (stored (snd entry)) pts\<rparr>)
                   else entry) ix"

text \<open>
  A search result as \<open>chat_with_rag\<close> reads it: an optional payload dictionary.
\<close>

record scored_point =
  sp_payload :: "(string \<times> string) list option"

datatype client = QdrantClient

text \<open>
  The process state these functions read and write: the two module globals
  (\<open>gemini_model\<close> of main.py, \<open>qdrant_client_instance\<close> of qdrant\_client\_lib.py,
  each \<open>None\<close> until initialised), the vector index behind the client, the number
  of embedding requests made so far, and the trace of outside calls.
\<close>

record ('c, 'e) world =
  gemini_model :: "string option"
  qdrant_client_instance :: "client option"
  index :: "('c, 'e) index"
  embed_calls :: nat
  trace :: "('c, 'e) event list"

text \<open>
  What the outside answers. Each field is the outcome of one kind of call whose
  failure this code handles: \<open>embed_content\<close> answers the \<open>k\<close>-th embedding request
  of the run (\<open>Inl\<close> is the exception it raises), \<open>read_file\<close> is opening and reading
  a file, \<open>search\<close> and \<open>generate_content\<close> are the awaited index search and
  the awaited LLM call as the handler sees them (\<open>Inl\<close> is any exception raised inside
  the \<open>try\<close>, the \<open>TypeError\<close> of an \<open>await\<close> on a plain value included).
  \<open>walk\<close> is what \<open>os.walk(DOCS_PATH)\<close> yields (each directory, the source's
  \<open>root\<close> and here \<open>dirpath\<close>, with its file names),
  \<open>relpath\<close> is \<open>os.path.relpath(os.path.join(dirpath, file_name), DOCS_PATH)\<close>, and
  \<open>isspace\<close> is the runtime's table of whitespace characters, which \<open>str.strip\<close>
  uses. The calls on the index that are made outside any handler are modelled where
  the call itself succeeds; so is building the client in the ingestion script, and in
  the served process its failure is part of \<open>startup_config\<close> below.
\<close>

record ('c, 'e) env =
  embed_content :: "nat \<Rightarrow> 'c list \<Rightarrow> exn + 'e"
  isspace :: "'c \<Rightarrow> bool"
  walk :: "(string \<times> string list) list"
  read_file :: "string \<Rightarrow> string \<Rightarrow> exn + 'c list"
  relpath :: "string \<Rightarrow> string \<Rightarrow> string"
  search :: "'e \<Rightarrow> exn + scored_point list"
  generate_content :: "string \<Rightarrow> exn + string"

definition log_event :: "('c, 'e) event \<Rightarrow> ('c, 'e) world \<Rightarrow> ('c, 'e) world" where
  "log_event ev w = w\<lparr>trace := trace w @ [ev]\<rparr>"

text \<open>The events of an embedding call: the request and the sleep.\<close>

fun embed_event :: "('c, 'e) event \<Rightarrow> bool" where
  "embed_event (EmbedContent t) = True"
| "embed_event (Sleep d) = True"
| "embed_event NewClient = False"
| "embed_event GetCollections = False"
| "embed_event (CreateCollection n d) = False"
| "embed_event (RecreateCollection n d) = False"
| "embed_event (Upsert n ps) = False"
| "embed_event (Search n v k) = False"
| "embed_event (GenerateContent p) = False"

subsection \<open>Configuration constants\<close>

definition MAX_CHUNK_SIZE :: int where "MAX_CHUNK_SIZE = 1000"
definition OVERLAP_SIZE :: int where "OVERLAP_SIZE = 200"
definition QDRANT_COLLECTION_NAME :: string where "QDRANT_COLLECTION_NAME = ''book_content''"
definition default_max_retries :: int where "default_max_retries = 5"
definition default_delay :: int where "default_delay = 5"

subsection \<open>The embedder (ingest.py, generate\_embedding)\<close>

text \<open>
  The body of \<open>for attempt in range(max_retries)\<close>, by the number of attempts left.
  One attempt sends the request; a returned embedding ends the function, a
  \<open>ResourceExhausted\<close> sleeps for \<open>delay\<close> and goes to the next attempt, any other
  \<open>Exception\<close> ends the function with \<open>None\<close>. When the range is used up the
  function returns \<open>None\<close>. Neither handler raises again, so the result has no
  exceptional alternative.
\<close>

fun embedding_attempts ::
  "('c, 'e) env \<Rightarrow> 'c list \<Rightarrow> int \<Rightarrow> nat \<Rightarrow> ('c, 'e) world \<Rightarrow> 'e option \<times> ('c, 'e) world" where
  "embedding_attempts env text delay 0 w = (None, w)"
| "embedding_attempts env text delay (Suc n) w =
     (let w1 = log_event (EmbedContent text) (w\<lparr>embed_calls := Suc (embed_calls w)\<rparr>)
      in case embed_content env (embed_calls w) text of
           Inr embedding \<Rightarrow> (Some embedding, w1)
         | Inl e \<Rightarrow>
             if is_resource_exhausted e
             then embedding_attempts env text delay n (log_event (Sleep delay) w1)
             else (None, w1))"

definition generate_embedding ::
  "('c, 'e) env \<Rightarrow> 'c list \<Rightarrow> int \<Rightarrow> int \<Rightarrow> ('c, 'e) world \<Rightarrow> 'e option \<times> ('c, 'e) world" where
  "generate_embedding env text max_retries delay w =
     embedding_attempts env text delay (nat max_retries) w"

text \<open>
  The \<open>k\<close>-th embedding request is rate limited: the service answers it by raising
  \<open>ResourceExhausted\<close>.
\<close>

definition rate_limited :: "('c, 'e) env \<Rightarrow> nat \<Rightarrow> 'c list \<Rightarrow> bool" where
  "rate_limited env k text =
     (case embed_content env k text of Inl e \<Rightarrow> is_resource_exhausted e | Inr v \<Rightarrow> False)"

text \<open>
  What one attempt that is not rate limited returns: the embedding, or \<open>None\<close> for a
  failure.
\<close>

definition attempt_result :: "exn + 'e \<Rightarrow> 'e option" where
  "attempt_result answer = (case answer of Inl e \<Rightarrow> None | Inr v \<Rightarrow> Some v)"

subsection \<open>The index client (qdrant\_client\_lib.py)\<close>

text \<open>
  \<open>get_qdrant_client\<close> builds the client when the global is \<open>None\<close>, stores it and
  returns the global.
\<close>

definition get_qdrant_client :: "('c, 'e) world \<Rightarrow> client option \<times> ('c, 'e) world" where
  "get_qdrant_client w =
     (if qdrant_client_instance w = None
      then (let w1 = log_event NewClient (w\<lparr>qdrant_client_instance := Some QdrantClient\<rparr>)
            in (qdrant_client_instance w1, w1))
      else (qdrant_client_instance w, w))"

text \<open>
  \<open>QdrantClient\<close>, the class qdrant\_client\_lib.py imports and builds, is the
  library's synchronous client: a call on it is made and returns a plain value
  (ingest.py itself runs \<open>qdrant_client.upsert\<close> in a thread, as the blocking call
  it is). \<open>await\<close> on a value that is not awaitable raises \<open>TypeError\<close>, so
  \<open>await client.method(...)\<close> makes the call and then raises. \<open>await_plain\<close> is
  that \<open>await\<close>; \<open>attribute_error\<close> is what a method call on \<open>None\<close> raises.
\<close>

definition await_plain :: "'a \<Rightarrow> exn + 'a" where
  "await_plain v = Inl (TypeError ''object can't be used in 'await' expression'')"

definition attribute_error :: exn where
  "attribute_error = OtherException ''AttributeError''"

text \<open>
  \<open>initialize_qdrant_collection\<close>, the setup at service startup, as it is written:
  list the collections and await the answer, then create the collection with vector
  size 1536 when its name is not among them. \<open>Inl\<close> is the exception that leaves the
  function.
\<close>

definition initialize_qdrant_collection :: "('c, 'e) world \<Rightarrow> (exn + unit) \<times> ('c, 'e) world" where
  "initialize_qdrant_collection w =
     (let (client, w1) = get_qdrant_client w
      in case client of
           None \<Rightarrow> (Inl attribute_error, w1)
         | Some c \<Rightarrow>
             let w2 = log_event GetCollections w1
             in case await_plain (index_get_collections (index w2)) of
                  Inl e \<Rightarrow> (Inl e, w2)
                | Inr existing_collections \<Rightarrow>
                    if QDRANT_COLLECTION_NAME \<notin> set existing_collections
                    then
                      let w3 = log_event (CreateCollection QDRANT_COLLECTION_NAME 1536)
                                 (w2\<lparr>index := index_create_collection
                                                 QDRANT_COLLECTION_NAME 1536 (index w2)\<rparr>)
                      in case await_plain () of
                           Inl e \<Rightarrow> (Inl e, w3)
                         | Inr done \<Rightarrow> (Inr (), w3)
                    else (Inr (), w2))"

definition close_qdrant_client :: "('c, 'e) world \<Rightarrow> ('c, 'e) world" where
  "close_qdrant_client w =
     (if qdrant_client_instance w \<noteq> None then w\<lparr>qdrant_client_instance := None\<rparr> else w)"

subsection \<open>The ingestion run (ingest.py, ingest\_book\_content)\<close>

text \<open>
  \<open>s.strip()\<close> drops the whitespace at both ends; \<open>s.endswith(suffix)\<close>;
  \<open>enumerate(chunks)\<close>.
\<close>

definition strip :: "('c \<Rightarrow> bool) \<Rightarrow> 'c list \<Rightarrow> 'c list" where
  "strip space s = rev (dropWhile space (rev (dropWhile space s)))"

definition endswith :: "string \<Rightarrow> string \<Rightarrow> bool" where
  "endswith s suffix =
     (length suffix \<le> length s \<and> drop (length s - length suffix) s = suffix)"

definition enumerate_chunks :: "'a list \<Rightarrow> (nat \<times> 'a) list" where
  "enumerate_chunks xs = zip [0..<length xs] xs"

text \<open>
  The state of one run: the accumulated \<open>points\<close>, the \<open>point_id_counter\<close>, and
  the world.
\<close>

record ('c, 'e) run =
  points :: "('c, 'e) point list"
  point_id_counter :: int
  outside :: "('c, 'e) world"

text \<open>
  The loop \<open>for i, chunk in enumerate(chunks)\<close>: a chunk that strips to nothing is
  skipped, a chunk whose embedding is \<open>None\<close> is skipped, any other chunk adds the
  point with the counter's value as id and increments the counter.
\<close>

fun embed_chunks ::
  "('c, 'e) env \<Rightarrow> string \<Rightarrow> string \<Rightarrow> (nat \<times> 'c list) list \<Rightarrow> ('c, 'e) run \<Rightarrow> ('c, 'e) run" where
  "embed_chunks env dirpath file_name [] st = st"
| "embed_chunks env dirpath file_name ((i, chunk) # rest) st =
     (if strip (isspace env) chunk = []
      then embed_chunks env dirpath file_name rest st
      else case generate_embedding env chunk default_max_retries default_delay (outside st) of
             (None, w) \<Rightarrow> embed_chunks env dirpath file_name rest (st\<lparr>outside := w\<rparr>)
           | (Some embedding, w) \<Rightarrow>
               embed_chunks env dirpath file_name rest
                 \<lparr>points = points st @
                    [\<lparr>point_id = point_id_counter st,
                      vector = embedding,
                      payload = \<lparr>pl_file_path = relpath env dirpath file_name,
                                 pl_chunk_index = i,
                                 pl_text = chunk\<rparr>\<rparr>],
                  point_id_counter = point_id_counter st + 1,
                  outside = w\<rparr>)"

text \<open>
  The invariant of a run, for the proofs below: the ids of the points are
  \<open>0, 1, \<dots>\<close> in order, the counter is the number of points, and no point holds a
  blank text.
\<close>

definition ids_ok :: "('c, 'e) env \<Rightarrow> ('c, 'e) run \<Rightarrow> bool" where
  "ids_ok env st =
     (map point_id (points st) = map int [0..<length (points st)]
      \<and> point_id_counter st = int (length (points st))
      \<and> list_all (\<lambda>p. strip (isspace env) (pl_text (payload p)) \<noteq> []) (points st))"

text \<open>
  One file of the walk. Only \<open>.md\<close> and \<open>.mdx\<close> files are read; a file that cannot
  be read is reported and skipped (the handler of the \<open>try\<close>). The result is \<open>None\<close>
  when the chunker does not return.
\<close>

definition process_file ::
  "('c, 'e) env \<Rightarrow> string \<Rightarrow> string \<Rightarrow> ('c, 'e) run \<Rightarrow> ('c, 'e) run option" where
  "process_file env dirpath file_name st =
     (if endswith file_name ''.md'' \<or> endswith file_name ''.mdx''
      then case read_file env dirpath file_name of
             Inl e \<Rightarrow> Some st
           | Inr content \<Rightarrow>
               (case chunk_text content MAX_CHUNK_SIZE OVERLAP_SIZE of
                  None \<Rightarrow> None
                | Some chunks \<Rightarrow>
                    Some (embed_chunks env dirpath file_name (enumerate_chunks chunks) st))
      else Some st)"

text \<open>
  A file all of whose chunks are blank: it cannot be read, or every chunk of its content
  strips to nothing. This is the hypothesis of the property of a blank corpus below.
\<close>

definition blank_file :: "('c, 'e) env \<Rightarrow> string \<Rightarrow> string \<Rightarrow> bool" where
  "blank_file env dirpath file_name =
     (case read_file env dirpath file_name of
        Inl e \<Rightarrow> True
      | Inr content \<Rightarrow>
          (case chunk_text content MAX_CHUNK_SIZE OVERLAP_SIZE of
             None \<Rightarrow> True
           | Some chunks \<Rightarrow> list_all (\<lambda>chunk. strip (isspace env) chunk = []) chunks))"

fun process_files ::
  "('c, 'e) env \<Rightarrow> string \<Rightarrow> string list \<Rightarrow> ('c, 'e) run \<Rightarrow> ('c, 'e) run option" where
  "process_files env dirpath [] st = Some st"
| "process_files env dirpath (file_name # files) st =
     (case process_file env dirpath file_name st of
        None \<Rightarrow> None
      | Some st' \<Rightarrow> process_files env dirpath files st')"

fun process_walk ::
  "('c, 'e) env \<Rightarrow> (string \<times> string list) list \<Rightarrow> ('c, 'e) run \<Rightarrow> ('c, 'e) run option" where
  "process_walk env [] st = Some st"
| "process_walk env ((dirpath, files) # dirs) st =
     (case process_files env dirpath files st of
        None \<Rightarrow> None
      | Some st' \<Rightarrow> process_walk env dirs st')"

text \<open>
  The setup of the ingestion path, as it is written: the collection is recreated with
  vector size 768, whatever the index holds, and the answer of that call is awaited.
  \<open>Inl\<close> is the exception that leaves the function.
\<close>

definition ingest_setup :: "('c, 'e) world \<Rightarrow> (exn + unit) \<times> ('c, 'e) world" where
  "ingest_setup w =
     (let (qdrant_client, w1) = get_qdrant_client w
      in case qdrant_client of
           None \<Rightarrow> (Inl attribute_error, w1)
         | Some c \<Rightarrow>
             let w2 = log_event (RecreateCollection QDRANT_COLLECTION_NAME 768)
                        (w1\<lparr>index := index_recreate_collection
                                        QDRANT_COLLECTION_NAME 768 (index w1)\<rparr>)
             in case await_plain True of
                  Inl e \<Rightarrow> (Inl e, w2)
                | Inr done \<Rightarrow> (Inr (), w2))"

text \<open>
  The rest of the run, from \<open>points = []\<close> on: the walk, then one upsert of all
  points when there are any (the upsert runs in a thread and its result is awaited,
  which a blocking call allows). The result is the run's final state.
\<close>

definition ingest_points :: "('c, 'e) env \<Rightarrow> ('c, 'e) world \<Rightarrow> ('c, 'e) run option" where
  "ingest_points env w =
     (case process_walk env (walk env)
             \<lparr>points = [], point_id_counter = 0, outside = w\<rparr> of
        None \<Rightarrow> None
      | Some st \<Rightarrow>
          if points st \<noteq> []
          then Some (st\<lparr>outside :=
                 log_event (Upsert QDRANT_COLLECTION_NAME (points st))
                   ((outside st)\<lparr>index :=
                      index_upsert QDRANT_COLLECTION_NAME (points st) (index (outside st))\<rparr>)\<rparr>)
          else Some st)"

text \<open>
  \<open>ingest_book_content\<close>: the setup, and when no exception left it, the rest of the
  run. \<open>Inl (e, w)\<close> is the run that ends with the exception \<open>e\<close> in the world \<open>w\<close>,
  \<open>Inr st\<close> the run that ends normally in the state \<open>st\<close>, and \<open>None\<close> the run that
  does not end.
\<close>

definition ingest_book_content ::
  "('c, 'e) env \<Rightarrow> ('c, 'e) world \<Rightarrow> ((exn \<times> ('c, 'e) world) + ('c, 'e) run) option" where
  "ingest_book_content env w =
     (case ingest_setup w of
        (Inl e, w1) \<Rightarrow> Some (Inl (e, w1))
      | (Inr done, w1) \<Rightarrow>
          (case ingest_points env w1 of
             None \<Rightarrow> None
           | Some st \<Rightarrow> Some (Inr st)))"

subsection \<open>The chat endpoint (main.py, chat\_with\_rag)\<close>

record chat_request =
  question :: string
  selected_text :: "string option"

datatype response = Answer string | HTTPException nat string

text \<open>\<open>sep.join(xs)\<close>.\<close>

fun join :: "string \<Rightarrow> string list \<Rightarrow> string" where
  "join sep [] = []"
| "join sep [x] = x"
| "join sep (x # y # ys) = x @ sep @ join sep (y # ys)"

text \<open>
  The comprehension over the search results: the \<open>text\<close> entry of every result
  whose payload is a non-empty dictionary that has one.
\<close>

definition payload_text :: "scored_point \<Rightarrow> string option" where
  "payload_text result =
     (case sp_payload result of
        None \<Rightarrow> None
      | Some d \<Rightarrow> if d \<noteq> [] then map_of d ''text'' else None)"

definition retrieved_chunks :: "scored_point list \<Rightarrow> string list" where
  "retrieved_chunks qdrant_results = List.map_filter payload_text qdrant_results"

definition chunk_separator :: string where
  "chunk_separator = ''\<newline>---''"

definition selected_label :: string where
  "selected_label = ''User selected text for context:\<newline>''"

definition chunks_label :: string where
  "chunks_label = ''Relevant document chunks:\<newline>''"

text \<open>
  \<open>if context_text:\<close> holds for a string that is neither \<open>None\<close> nor empty.
\<close>

definition combined_context :: "string option \<Rightarrow> string list \<Rightarrow> string" where
  "combined_context context_text chunks =
     (case context_text of
        None \<Rightarrow> chunks_label @ join chunk_separator chunks
      | Some selected \<Rightarrow>
          if selected \<noteq> []
          then selected_label @ selected @ ''\<newline>\<newline>'' @ chunks_label
                 @ join chunk_separator chunks
          else chunks_label @ join chunk_separator chunks)"

definition preamble :: string where
  "preamble =
     ''You are a helpful assistant specialized in Physical AI & Humanoid Robotics. '' @
     ''Answer the user's question based ONLY on the provided context. '' @
     ''If the answer cannot be found in the context, state that you don't have enough information.\<newline>\<newline>''"

definition build_prompt :: "string \<Rightarrow> string \<Rightarrow> string" where
  "build_prompt context user_query =
     preamble @ ''Context:\<newline>'' @ context @ ''\<newline>\<newline>Question: '' @ user_query"

definition chat_with_rag ::
  "(char, 'e) env \<Rightarrow> chat_request \<Rightarrow> (char, 'e) world \<Rightarrow> response \<times> (char, 'e) world" where
  "chat_with_rag env request w =
     (if gemini_model w = None
      then (HTTPException 500 ''Gemini client not initialized.'', w)
      else
        let (client, w1) = get_qdrant_client w
        in if client = None
           then (HTTPException 500 ''Qdrant client not initialized.'', w1)
           else
             let user_query = question request;
                 context_text = selected_text request
             in case generate_embedding env user_query default_max_retries default_delay w1 of
                  (None, w2) \<Rightarrow>
                    (HTTPException 500 ''Failed to generate query embedding.'', w2)
                | (Some query_embedding, w2) \<Rightarrow>
                    let (client2, w3) = get_qdrant_client w2;
                        w4 = log_event (Search QDRANT_COLLECTION_NAME query_embedding 5) w3
                    in case search env query_embedding of
                         Inl e \<Rightarrow>
                           (HTTPException 500 (''Qdrant search failed: '' @ str_exn e), w4)
                       | Inr qdrant_results \<Rightarrow>
                           let prompt =
                                 build_prompt
                                   (combined_context context_text
                                      (retrieved_chunks qdrant_results))
                                   user_query;
                               w5 = log_event (GenerateContent prompt) w4
                           in case generate_content env prompt of
                                Inl e \<Rightarrow>
                                  (HTTPException 500
                                     (''LLM generation failed: '' @ str_exn e), w5)
                              | Inr answer \<Rightarrow> (Answer answer, w5))"

subsection \<open>Service startup and the served requests (main.py, lifespan)\<close>








subsection \<open>Sign-up and the current user (main.py, auth.py)\<close>

record user_create =
  uc_username :: string
  uc_email :: string
  uc_password :: string

record user =
  username :: string
  email :: string
  full_name :: "string option"

text \<open>An entry of \<open>users_db\<close>, the dictionary stored under the user name.\<close>

record user_entry =
  db_hashed_password :: string
  db_email :: string
  db_full_name :: string

type_synonym users_db = "string \<rightharpoonup> user_entry"

text \<open>
  \<open>signup\<close>. The password hash comes from the hashing library, here the parameter
  \<open>get_password_hash\<close>.
\<close>

definition signup ::
  "(string \<Rightarrow> string) \<Rightarrow> user_create \<Rightarrow> users_db \<Rightarrow> (response + user) \<times> users_db" where
  "signup get_password_hash user_data db =
     (if db (uc_username user_data) \<noteq> None
      then (Inl (HTTPException 400 ''Username already registered''), db)
      else
        let hashed_password = get_password_hash (uc_password user_data)
        in (Inr \<lparr>username = uc_username user_data,
                  email = uc_email user_data,
                  full_name = Some (uc_username user_data)\<rparr>,
            db(uc_username user_data \<mapsto>
                 \<lparr>db_hashed_password = hashed_password,
                  db_email = uc_email user_data,
                  db_full_name = uc_username user_data\<rparr>)))"

text \<open>
  \<open>decode_access_token\<close>: the token library's \<open>decode\<close> (the parameter
  \<open>jwt_decode\<close>, which returns the payload or raises) with its \<open>JWTError\<close> turned
  into \<open>None\<close>.
\<close>

definition decode_access_token ::
  "(string \<Rightarrow> exn + (string \<rightharpoonup> string)) \<Rightarrow> string \<Rightarrow> exn + (string \<rightharpoonup> string) option" where
  "decode_access_token jwt_decode token =
     (case jwt_decode token of
        Inr token_payload \<Rightarrow> Inr (Some token_payload)
      | Inl (JWTError m) \<Rightarrow> Inr None
      | Inl e \<Rightarrow> Inl e)"

definition unauthorized :: response where
  "unauthorized = HTTPException 401 ''Invalid authentication credentials''"

text \<open>
  \<open>read_users_me\<close>. \<open>Inl (Inl e)\<close> is an exception of the token library that is not
  a \<open>JWTError\<close> and leaves the handler as it is; \<open>Inl (Inr r)\<close> is the HTTP failure.
\<close>

definition read_users_me ::
  "(string \<Rightarrow> exn + (string \<rightharpoonup> string)) \<Rightarrow> string \<Rightarrow> users_db \<Rightarrow> (exn + response) + user" where
  "read_users_me jwt_decode token db =
     (case decode_access_token jwt_decode token of
        Inl e \<Rightarrow> Inl (Inl e)
      | Inr None \<Rightarrow> Inl (Inr unauthorized)
      | Inr (Some token_payload) \<Rightarrow>
          (case token_payload ''sub'' of
             None \<Rightarrow> Inl (Inr unauthorized)
           | Some name \<Rightarrow>
               (case db name of
                  None \<Rightarrow> Inl (Inr unauthorized)
                | Some user_data \<Rightarrow>
                    Inr \<lparr>username = name,
                         email = db_email user_data,
                         full_name = Some (db_full_name user_data)\<rparr>)))"

text \<open>
  \<open>users_db\<close> after a sequence of further sign-up requests (the only writes to it).
\<close>

fun signups :: "(string \<Rightarrow> string) \<Rightarrow> user_create list \<Rightarrow> users_db \<Rightarrow> users_db" where
  "signups get_password_hash [] db = db"
| "signups get_password_hash (user_data # more_requests) db =
     signups get_password_hash more_requests (snd (signup get_password_hash user_data db))"

section \<open>Properties\<close>

subsection \<open>The chunker's loop\<close>

text \<open>
  A run of the loop that returns has made progress: with \<open>W \<le> O\<close> and a start below
  the length, no run returns. The proof is by the fixed-point induction of the loop.
\<close>

lemma chunk_loop_stuck_aux:
  assumes "chunk_loop text w ov chunks start = Some y"
  shows "\<not> (w \<le> ov \<and> start < int (length text))"
proof (rule chunk_loop.raw_induct
    [where P = "\<lambda>t w ov chunks start y. \<not> (w \<le> ov \<and> start < int (length t))", OF _ assms])
  fix f :: "'a list \<Rightarrow> int \<Rightarrow> int \<Rightarrow> 'a list list \<Rightarrow> int \<Rightarrow> 'a list list option"
  fix t w ov chunks start y
  assume ih: "\<And>t w ov chunks start y. f t w ov chunks start = Some y
                \<Longrightarrow> \<not> (w \<le> ov \<and> start < int (length t))"
  assume run: "(if start < int (length t)
                then f t w ov (chunks @ [slice t start (start + w)]) (start + (w - ov))
                else Some chunks) = Some y"
  show "\<not> (w \<le> ov \<and> start < int (length t))"
  proof
    assume h: "w \<le> ov \<and> start < int (length t)"
    with run have "f t w ov (chunks @ [slice t start (start + w)]) (start + (w - ov)) = Some y"
      by simp
    from ih[OF this] h show False by simp
  qed
qed

lemma chunk_loop_stuck:
  "w \<le> ov \<Longrightarrow> start < int (length text) \<Longrightarrow> chunk_loop text w ov chunks start = None"
  using chunk_loop_stuck_aux[of "text" w ov chunks start] by (cases "chunk_loop text w ov chunks start") auto

lemma upt_shift: "map f [0..<Suc m] = f 0 # map (\<lambda>i. f (Suc i)) [0..<m]"
  by (induction m) auto

lemma ceil_div_nonpos:
  assumes "0 < step" "a \<le> 0"
  shows "ceil_div a step = 0"
proof -
  have "a + step - 1 < step" using assms by simp
  then have "(a + step - 1) div step \<le> 0"
    using assms(1) by (metis div_pos_pos_trivial nle_le pos_imp_zdiv_nonneg_iff)
  then show ?thesis by (simp add: ceil_div_def)
qed

lemma ceil_div_step:
  assumes "0 < step" "0 < a"
  shows "ceil_div a step = Suc (ceil_div (a - step) step)"
proof -
  have "(a + step - 1) div step = (a - 1) div step + 1"
    using assms(1) by (smt (verit, best) div_add_self1)
  moreover have "0 \<le> (a - 1) div step"
    using assms pos_imp_zdiv_nonneg_iff zle_diff1_eq by presburger
  ultimately show ?thesis by (simp add: ceil_div_def)
qed

lemma ceil_div_pos:
  assumes "0 < b" "0 < a"
  shows "0 < ceil_div a b"
  using ceil_div_step[OF assms] by simp

text \<open>
  With \<open>O < W\<close> the loop returns: from \<open>start\<close> it appends one slice for each of the
  \<open>ceil((L - start) / (W - O))\<close> starts still below the length.
\<close>

lemma chunk_loop_returns:
  assumes "ov < w"
  shows "chunk_loop text w ov chunks start =
         Some (chunks @ map (\<lambda>i. slice text (start + int i * (w - ov)) (start + int i * (w - ov) + w))
                 [0..<ceil_div (int (length text) - start) (w - ov)])"
proof (induction "nat (int (length text) - start)" arbitrary: start chunks rule: less_induct)
  case less
  have sp: "0 < w - ov" using assms by simp
  show ?case
  proof (cases "start < int (length text)")
    case False
    then have "ceil_div (int (length text) - start) (w - ov) = 0"
      using sp by (simp add: ceil_div_nonpos)
    with False show ?thesis
      by (subst chunk_loop.simps) simp
  next
    case True
    let ?c = "slice text start (start + w)"
    let ?s = "start + (w - ov)"
    have m: "nat (int (length text) - ?s) < nat (int (length text) - start)"
      using True sp by simp
    have n: "ceil_div (int (length text) - start) (w - ov) =
             Suc (ceil_div (int (length text) - ?s) (w - ov))"
      using ceil_div_step[OF sp, of "int (length text) - start"] True
      by (simp add: algebra_simps)
    have "chunk_loop text w ov chunks start = chunk_loop text w ov (chunks @ [?c]) ?s"
      using True by (subst chunk_loop.simps) simp
    also have "\<dots> = Some ((chunks @ [?c]) @
        map (\<lambda>i. slice text (?s + int i * (w - ov)) (?s + int i * (w - ov) + w))
          [0..<ceil_div (int (length text) - ?s) (w - ov)])"
      by (rule less[OF m])
    finally show ?thesis
      unfolding n upt_shift by (simp add: algebra_simps)
  qed
qed

lemma chunk_text_returns:
  assumes "text \<noteq> []" "ov < w"
  shows "chunk_text text w ov =
         Some (map (\<lambda>i. slice text (int i * (w - ov)) (int i * (w - ov) + w))
                 [0..<ceil_div (int (length text)) (w - ov)])"
  using assms chunk_loop_returns[of ov w "text" "[]" 0]
  by (simp add: chunk_text_def)

lemma chunk_text_stuck:
  assumes "text \<noteq> []" "w \<le> ov"
  shows "chunk_text text w ov = None"
  using assms chunk_loop_stuck[of w ov 0 "text" "[]"]
  by (simp add: chunk_text_def)

subsection \<open>Slices and counts\<close>

lemma take_min_length: "take (min n (length ys)) ys = take n ys"
  by (simp add: min_def)

lemma slice_clip:
  assumes "0 \<le> s" "0 \<le> w"
  shows "slice xs s (s + w) = take (nat w) (drop (nat s) xs)"
proof (cases "s \<le> int (length xs)")
  case True
  have e: "nat (min (s + w) (int (length xs)) - s) = min (nat w) (length (drop (nat s) xs))"
    using assms True by (simp add: min_def) linarith
  have "slice xs s (s + w) = take (nat (min (s + w) (int (length xs)) - s)) (drop (nat s) xs)"
    using assms True by (simp add: slice_def adjust_index_def Let_def min_absorb1)
  also have "\<dots> = take (nat w) (drop (nat s) xs)"
    unfolding e by (rule take_min_length)
  finally show ?thesis .
next
  case False
  then show ?thesis
    using assms by (simp add: slice_def adjust_index_def Let_def)
qed

lemma neg_div_neg_eq_ceil_div:
  fixes a b :: int
  assumes "0 < b"
  shows "- (- a div b) = (a + b - 1) div b"
proof -
  define z where "z = (a + b - 1) div b"
  have e: "a + b - 1 = z * b + (a + b - 1) mod b"
    by (simp add: z_def)
  have "0 \<le> (a + b - 1) mod b" "(a + b - 1) mod b < b"
    using assms by simp_all
  with e have 1: "z * b \<le> a + b - 1" and 2: "a + b - 1 < z * b + b"
    by linarith+
  have "- a div b = - z"
    using 1 2 assms by (smt (verit, ccfv_SIG) div_mult_self3 div_pos_pos_trivial)
  then show ?thesis by (simp add: z_def)
qed

lemma ceil_div_ceiling:
  assumes "0 < b"
  shows "int (ceil_div a b) = max 0 \<lceil>real_of_int a / real_of_int b\<rceil>"
proof -
  have "\<lceil>real_of_int a / real_of_int b\<rceil> = - (- a div b)"
    by (rule ceiling_divide_eq_div)
  also have "\<dots> = (a + b - 1) div b"
    using assms by (rule neg_div_neg_eq_ceil_div)
  finally show ?thesis by (simp add: ceil_div_def)
qed

lemma ceil_div_text:
  assumes "text \<noteq> []" "ov < w"
  shows "int (ceil_div (int (length text)) (w - ov)) = \<lceil>real (length text) / real_of_int (w - ov)\<rceil>"
proof -
  have "0 < ceil_div (int (length text)) (w - ov)"
    using assms by (intro ceil_div_pos) simp_all
  then have "0 < max 0 \<lceil>real_of_int (int (length text)) / real_of_int (w - ov)\<rceil>"
    using ceil_div_ceiling[of "w - ov" "int (length text)"] assms(2) by simp
  then show ?thesis
    using ceil_div_ceiling[of "w - ov" "int (length text)"] assms(2) by simp
qed

lemma ceil_div_one_iff:
  assumes "0 < b" "0 < a"
  shows "ceil_div a b = 1 \<longleftrightarrow> a \<le> b"
proof
  assume "ceil_div a b = 1"
  then have z: "ceil_div (a - b) b = 0"
    using ceil_div_step[OF assms] by simp
  show "a \<le> b"
  proof (rule ccontr)
    assume "\<not> a \<le> b"
    then have "0 < ceil_div (a - b) b"
      using assms(1) by (intro ceil_div_pos) simp_all
    with z show False by simp
  qed
next
  assume "a \<le> b"
  then have "ceil_div (a - b) b = 0"
    using assms(1) by (intro ceil_div_nonpos) simp_all
  then show "ceil_div a b = 1"
    using ceil_div_step[OF assms] by simp
qed

lemma ceil_div_covers:
  assumes "0 < b" "int j < a"
  shows "j div nat b < ceil_div a b"
proof -
  have "int (j div nat b) = int j div b"
    using assms by (simp add: zdiv_int)
  also have "\<dots> \<le> (a - 1) div b"
    using assms by (intro zdiv_mono1) simp_all
  also have "\<dots> < (a - 1) div b + 1" by simp
  also have "(a - 1) div b + 1 = (a + b - 1) div b"
    using assms(1) by (smt (verit, best) div_add_self1)
  finally show ?thesis
    by (simp add: ceil_div_def)
qed

subsection \<open>The chunker's contract\<close>

text \<open>
  Claim C1, as the code has it. \<open>chunk_text\<close> of the empty text returns the empty
  list, whatever the two sizes are. For a non-empty text of length \<open>L\<close> and sizes with
  \<open>0 \<le> O < W\<close> the call returns, and its result is a function of its arguments alone.
  There are \<open>ceil(L / (W - O))\<close> chunks; chunk \<open>i\<close> is the text from
  \<open>i * (W - O)\<close> up to \<open>i * (W - O) + W\<close>, cut at \<open>L\<close>; no chunk is longer than
  \<open>W\<close>; and every index \<open>j < L\<close> of the text lies in a chunk, which holds the text's
  character there. The claim asks for \<open>O < W\<close> only: with a negative overlap the step
  \<open>W - O\<close> is longer than the window and the characters between two windows are in no
  chunk (the counterexample below), so the overlap must not be negative.
\<close>

theorem chunk_text_windows:
  "chunk_text ([] :: 'a list) w ov = Some [] \<and>
   ((text :: 'a list) \<noteq> [] \<and> 0 \<le> ov \<and> ov < w \<longrightarrow>
     (\<exists>cs. chunk_text text w ov = Some cs
        \<and> int (length cs) = \<lceil>real (length text) / real_of_int (w - ov)\<rceil>
        \<and> (\<forall>i<length cs. cs ! i = take (nat w) (drop (i * nat (w - ov)) text))
        \<and> (\<forall>c\<in>set cs. length c \<le> nat w)
        \<and> (\<forall>j<length text. \<exists>i<length cs.
               i * nat (w - ov) \<le> j \<and> j < i * nat (w - ov) + length (cs ! i)
               \<and> cs ! i ! (j - i * nat (w - ov)) = text ! j)))"
proof (intro conjI impI)
  show "chunk_text ([] :: 'a list) w ov = Some []"
    by (simp add: chunk_text_def)
next
  assume h: "text \<noteq> [] \<and> 0 \<le> ov \<and> ov < w"
  define step where "step = nat (w - ov)"
  define n where "n = ceil_div (int (length text)) (w - ov)"
  define cs where "cs = map (\<lambda>i. take (nat w) (drop (i * step) text)) [0..<n]"
  have sp: "0 < step" "int step = w - ov" "step \<le> nat w"
    using h unfolding step_def by linarith+
  have win: "slice text (int i * (w - ov)) (int i * (w - ov) + w)
             = take (nat w) (drop (i * step) text)" for i
  proof -
    have "nat (int i * (w - ov)) = i * step"
      using h by (simp add: step_def nat_mult_distrib)
    then show ?thesis
      using h slice_clip[of "int i * (w - ov)" w "text"] by simp
  qed
  have run: "chunk_text text w ov = Some cs"
    using h chunk_text_returns[of "text" ov w] by (simp add: cs_def n_def win)
  have len: "length cs = n" by (simp add: cs_def)
  have nth: "cs ! i = take (nat w) (drop (i * step) text)" if "i < n" for i
    using that by (simp add: cs_def)
  have count: "int (length cs) = \<lceil>real (length text) / real_of_int (w - ov)\<rceil>"
    using h ceil_div_text[of "text" ov w] by (simp add: len n_def)
  have short: "\<forall>c\<in>set cs. length c \<le> nat w"
    by (auto simp: cs_def)
  have cover: "\<exists>i<length cs. i * step \<le> j \<and> j < i * step + length (cs ! i)
                 \<and> cs ! i ! (j - i * step) = text ! j" if j: "j < length text" for j
  proof -
    define i where "i = j div step"
    define k where "k = i * step"
    have i: "i < n"
      using ceil_div_covers[of "w - ov" j "int (length text)"] h j
      by (simp add: n_def step_def i_def)
    have lo: "k \<le> j" by (simp add: k_def i_def)
    have "j < k + step"
      unfolding k_def i_def
      using sp(1) by (metis add.commute dividend_less_div_times mult.commute)
    then have hi: "j - k < nat w" using sp(3) lo by linarith
    have hi2: "j - k < length text - k" using j lo by linarith
    have "j < k + length (cs ! i)"
      using hi hi2 lo by (simp add: nth[OF i] k_def[symmetric])
    moreover have "cs ! i ! (j - k) = text ! j"
      using hi lo j by (simp add: nth[OF i] k_def[symmetric])
    ultimately show ?thesis using i lo len unfolding k_def by blast
  qed
  show "\<exists>cs. chunk_text text w ov = Some cs
        \<and> int (length cs) = \<lceil>real (length text) / real_of_int (w - ov)\<rceil>
        \<and> (\<forall>i<length cs. cs ! i = take (nat w) (drop (i * nat (w - ov)) text))
        \<and> (\<forall>c\<in>set cs. length c \<le> nat w)
        \<and> (\<forall>j<length text. \<exists>i<length cs.
               i * nat (w - ov) \<le> j \<and> j < i * nat (w - ov) + length (cs ! i)
               \<and> cs ! i ! (j - i * nat (w - ov)) = text ! j)"
    using run count short cover nth len unfolding step_def[symmetric]
    by (intro exI[of _ cs]) simp
qed

theorem chunk_text_windows_witness:
  "\<exists>cs. chunk_text ''abcde'' 3 1 = Some cs
        \<and> int (length cs) = \<lceil>real (length ''abcde'') / real_of_int (3 - 1)\<rceil>
        \<and> (\<forall>i<length cs. cs ! i = take (nat 3) (drop (i * nat (3 - 1)) ''abcde''))
        \<and> (\<forall>c\<in>set cs. length c \<le> nat 3)
        \<and> (\<forall>j<length ''abcde''. \<exists>i<length cs.
               i * nat (3 - 1) \<le> j \<and> j < i * nat (3 - 1) + length (cs ! i)
               \<and> cs ! i ! (j - i * nat (3 - 1)) = ''abcde'' ! j)"
  using chunk_text_windows[of 3 1 "''abcde''"] by simp

text \<open>
  With \<open>W = 2\<close> and \<open>O = -1\<close> (so \<open>O < W\<close>) the text \<open>abc\<close> gives the one chunk \<open>ab\<close>:
  the loop steps from 0 to 3, and the character at index 2 is in no chunk.
\<close>

theorem chunk_text_windows_counterexample:
  "(- 1 :: int) < 2 \<and> chunk_text ''abc'' 2 (- 1) = Some [''ab'']
   \<and> length (concat [''ab'']) < length ''abc''"
  by (simp add: chunk_text_def chunk_loop.simps slice_def adjust_index_def)

text \<open>
  Claim C3, as the code has it. For a non-empty text of length \<open>L\<close> and \<open>O < W\<close> the
  number of chunks is \<open>ceil(L / (W - O))\<close>: the loop runs once for every start
  \<open>0, W - O, 2 (W - O), \<dots>\<close> below \<open>L\<close>. Exactly one chunk is returned when, and only
  when, \<open>L \<le> W - O\<close>. The claim's count, \<open>ceil(max(L - O, 1) / (W - O))\<close>, and its
  "one chunk when \<open>L \<le> W\<close>" are what a loop that stops as soon as a window reaches the
  end of the text would give; this loop goes on while \<open>start < L\<close>, so it also returns
  the windows that start inside the last overlap.
\<close>

theorem chunk_text_count:
  assumes "text \<noteq> []" "ov < w"
  shows "\<exists>cs. chunk_text text w ov = Some cs
           \<and> int (length cs) = \<lceil>real (length text) / real_of_int (w - ov)\<rceil>
           \<and> (length cs = 1 \<longleftrightarrow> int (length text) \<le> w - ov)"
proof -
  let ?n = "ceil_div (int (length text)) (w - ov)"
  let ?cs = "map (\<lambda>i. slice text (int i * (w - ov)) (int i * (w - ov) + w)) [0..<?n]"
  have "chunk_text text w ov = Some ?cs"
    using assms by (rule chunk_text_returns)
  moreover have "int (length ?cs) = \<lceil>real (length text) / real_of_int (w - ov)\<rceil>"
    using ceil_div_text[OF assms] by simp
  moreover have "length ?cs = 1 \<longleftrightarrow> int (length text) \<le> w - ov"
    using ceil_div_one_iff[of "w - ov" "int (length text)"] assms by simp
  ultimately show ?thesis by blast
qed

theorem chunk_text_count_witness:
  "\<exists>cs. chunk_text ''abcde'' 3 1 = Some cs \<and> int (length cs) = \<lceil>real (length ''abcde'') / real_of_int (3 - 1)\<rceil>
       \<and> (length cs = 1 \<longleftrightarrow> int (length ''abcde'') \<le> 3 - 1)"
  using chunk_text_count[of "''abcde''" 1 3] by simp

text \<open>
  The text \<open>ab\<close> with \<open>W = 2\<close> and \<open>O = 1\<close>: \<open>L \<le> W\<close> and the claim's count is 1, and
  the code returns the two chunks \<open>ab\<close> and \<open>b\<close>.
\<close>

theorem chunk_text_count_counterexample:
  "(1 :: int) < 2 \<and> int (length ''ab'') \<le> 2
   \<and> chunk_text ''ab'' 2 1 = Some [''ab'', ''b'']
   \<and> spec_chunk_count (int (length ''ab'')) 2 1 = 1"
  by (simp add: chunk_text_def chunk_loop.simps slice_def adjust_index_def spec_chunk_count_def)

text \<open>
  Claim C4, as the code has it. \<open>chunk_text\<close> checks nothing about its sizes and has
  no error to raise. With \<open>O \<ge> W\<close> and a non-empty text the loop never ends (\<open>start\<close>
  stays below the length for ever), so the call neither returns nor is rejected; with
  the empty text it returns the empty list before the loop, whatever the sizes; and
  with \<open>O < W\<close> it returns for every text.
\<close>

theorem chunk_text_progress:
  "(text \<noteq> [] \<and> w \<le> ov \<longrightarrow> chunk_text text w ov = None)
   \<and> (text = [] \<longrightarrow> chunk_text text w ov = Some [])
   \<and> (ov < w \<longrightarrow> (\<exists>cs. chunk_text text w ov = Some cs))"
proof (intro conjI impI)
  assume "text \<noteq> [] \<and> w \<le> ov"
  then show "chunk_text text w ov = None"
    by (simp add: chunk_text_stuck)
next
  assume "text = []"
  then show "chunk_text text w ov = Some []"
    by (simp add: chunk_text_def)
next
  assume "ov < w"
  then show "\<exists>cs. chunk_text text w ov = Some cs"
    using chunk_text_returns[of "text" ov w] by (cases "text = []") (simp_all add: chunk_text_def)
qed

theorem chunk_text_progress_witness:
  "chunk_text ''a'' 1 1 = None \<and> chunk_text ([] :: string) 1 1 = Some []
   \<and> (\<exists>cs. chunk_text ''ab'' 2 1 = Some cs)"
  using chunk_text_progress[of "''a''" 1 1] chunk_text_progress[of "[] :: string" 1 1]
    chunk_text_progress[of "''ab''" 2 1]
  by simp

text \<open>
  Two calls with \<open>O = W = 1\<close>: on the text \<open>a\<close> the call does not return, and on the
  empty text it returns the empty list. Neither is rejected.
\<close>

theorem chunk_text_progress_counterexample:
  "(1 :: int) \<ge> 1 \<and> chunk_text ''a'' 1 1 = None \<and> chunk_text ([] :: string) 1 1 = Some []"
  by (simp add: chunk_text_def chunk_loop_stuck)

subsection \<open>The embedder's retry loop\<close>

lemma attempts_all_limited:
  "(\<And>j. j < n \<Longrightarrow> rate_limited env (embed_calls w + j) t) \<Longrightarrow>
   embedding_attempts env t delay n w =
     (None, w\<lparr>embed_calls := embed_calls w + n,
              trace := trace w @ concat (replicate n [EmbedContent t, Sleep delay])\<rparr>)"
proof (induction n arbitrary: w)
  case 0
  show ?case by simp
next
  case (Suc n)
  let ?w1 = "log_event (Sleep delay) (log_event (EmbedContent t) (w\<lparr>embed_calls := Suc (embed_calls w)\<rparr>))"
  have first: "rate_limited env (embed_calls w) t"
    using Suc.prems[of 0] by simp
  have rest: "rate_limited env (embed_calls ?w1 + j) t" if "j < n" for j
    using Suc.prems[of "Suc j"] that by (simp add: log_event_def)
  have "embedding_attempts env t delay (Suc n) w = embedding_attempts env t delay n ?w1"
    using first by (simp add: rate_limited_def Let_def split: sum.splits)
  also have "\<dots> = (None, ?w1\<lparr>embed_calls := embed_calls ?w1 + n,
              trace := trace ?w1 @ concat (replicate n [EmbedContent t, Sleep delay])\<rparr>)"
    using rest by (rule Suc.IH)
  finally show ?case
    by (simp add: log_event_def)
qed

lemma attempts_first_answer:
  "k < n \<Longrightarrow> (\<And>j. j < k \<Longrightarrow> rate_limited env (embed_calls w + j) t) \<Longrightarrow>
   \<not> rate_limited env (embed_calls w + k) t \<Longrightarrow>
   embedding_attempts env t delay n w =
     (attempt_result (embed_content env (embed_calls w + k) t),
      w\<lparr>embed_calls := embed_calls w + k + 1,
        trace := trace w @ concat (replicate k [EmbedContent t, Sleep delay]) @ [EmbedContent t]\<rparr>)"
proof (induction n arbitrary: w k)
  case 0
  then show ?case by simp
next
  case (Suc n)
  show ?case
  proof (cases k)
    case 0
    with Suc.prems(3) show ?thesis
      by (auto simp: rate_limited_def attempt_result_def log_event_def Let_def split: sum.splits)
  next
    case (Suc k')
    let ?w1 = "log_event (Sleep delay) (log_event (EmbedContent t) (w\<lparr>embed_calls := Suc (embed_calls w)\<rparr>))"
    have first: "rate_limited env (embed_calls w) t"
      using Suc.prems(2)[of 0] Suc by simp
    have rest: "rate_limited env (embed_calls ?w1 + j) t" if "j < k'" for j
      using Suc.prems(2)[of "Suc j"] that Suc by (simp add: log_event_def)
    have last: "\<not> rate_limited env (embed_calls ?w1 + k') t"
      using Suc.prems(3) Suc by (simp add: log_event_def)
    have lt: "k' < n" using Suc.prems(1) Suc by simp
    have "embedding_attempts env t delay (Suc n) w = embedding_attempts env t delay n ?w1"
      using first by (simp add: rate_limited_def Let_def split: sum.splits)
    also note Suc.IH[OF lt rest last]
    finally show ?thesis
      using Suc by (simp add: log_event_def)
  qed
qed

lemma attempts_calls_bound:
  "embed_calls (snd (embedding_attempts env t delay n w)) \<le> embed_calls w + n"
proof (induction n arbitrary: w)
  case 0
  show ?case by simp
next
  case (Suc n)
  let ?w1 = "log_event (Sleep delay) (log_event (EmbedContent t) (w\<lparr>embed_calls := Suc (embed_calls w)\<rparr>))"
  have "embed_calls (snd (embedding_attempts env t delay n ?w1)) \<le> embed_calls ?w1 + n"
    by (rule Suc.IH)
  then show ?case
    by (auto simp: log_event_def Let_def split: sum.splits)
qed


text \<open>
  Claim C2. Let the first \<open>k\<close> requests of a call be rate limited. If \<open>k\<close> is below
  \<open>max_retries\<close> and request \<open>k\<close> is not rate limited, then \<open>generate_embedding\<close>
  makes exactly \<open>k + 1\<close> requests, sleeps \<open>delay\<close> after each of the \<open>k\<close> rate
  limited ones, and returns what request \<open>k\<close> gave: the embedding, or \<open>None\<close> at once
  for any other failure, without a further request. If all \<open>max_retries\<close> requests are
  rate limited, it returns \<open>None\<close> after \<open>max_retries\<close> requests. So a request
  is repeated only after a rate limit, never more than \<open>max_retries\<close> requests are
  made, and the defaults are 5 attempts and 5 seconds. The result is a value in every
  case: both handlers of the source end in a return or in the next attempt, and the
  exceptions modelled are those that derive from \<open>Exception\<close>.
\<close>

theorem generate_embedding_retry_policy:
  "default_max_retries = 5 \<and> default_delay = 5
   \<and> embed_calls (snd (generate_embedding env t max_retries delay w))
         \<le> embed_calls w + nat max_retries
   \<and> (\<forall>k < nat max_retries.
         (\<forall>j<k. rate_limited env (embed_calls w + j) t)
         \<and> \<not> rate_limited env (embed_calls w + k) t \<longrightarrow>
         generate_embedding env t max_retries delay w =
           (case embed_content env (embed_calls w + k) t of
              Inl e \<Rightarrow> None
            | Inr embedding \<Rightarrow> Some embedding,
            w\<lparr>embed_calls := embed_calls w + k + 1,
              trace := trace w @ concat (replicate k [EmbedContent t, Sleep delay])
                         @ [EmbedContent t]\<rparr>))
   \<and> ((\<forall>j < nat max_retries. rate_limited env (embed_calls w + j) t) \<longrightarrow>
         generate_embedding env t max_retries delay w =
           (None,
            w\<lparr>embed_calls := embed_calls w + nat max_retries,
              trace := trace w
                         @ concat (replicate (nat max_retries) [EmbedContent t, Sleep delay])\<rparr>))"
proof (intro conjI allI impI)
  show "default_max_retries = 5" by (simp add: default_max_retries_def)
  show "default_delay = 5" by (simp add: default_delay_def)
  show "embed_calls (snd (generate_embedding env t max_retries delay w))
          \<le> embed_calls w + nat max_retries"
    unfolding generate_embedding_def by (rule attempts_calls_bound)
next
  fix k
  assume k: "k < nat max_retries"
  assume h: "(\<forall>j<k. rate_limited env (embed_calls w + j) t)
             \<and> \<not> rate_limited env (embed_calls w + k) t"
  show "generate_embedding env t max_retries delay w =
           (case embed_content env (embed_calls w + k) t of
              Inl e \<Rightarrow> None
            | Inr embedding \<Rightarrow> Some embedding,
            w\<lparr>embed_calls := embed_calls w + k + 1,
              trace := trace w @ concat (replicate k [EmbedContent t, Sleep delay])
                         @ [EmbedContent t]\<rparr>)"
    using attempts_first_answer[OF k, of env w t delay] h
    by (simp add: generate_embedding_def attempt_result_def)
next
  assume "\<forall>j < nat max_retries. rate_limited env (embed_calls w + j) t"
  then show "generate_embedding env t max_retries delay w =
           (None,
            w\<lparr>embed_calls := embed_calls w + nat max_retries,
              trace := trace w
                         @ concat (replicate (nat max_retries) [EmbedContent t, Sleep delay])\<rparr>)"
    using attempts_all_limited[of "nat max_retries" env w t delay]
    by (simp add: generate_embedding_def)
qed

theorem generate_embedding_retry_policy_witness:
  "generate_embedding
     \<lparr>embed_content = (\<lambda>k t. if k < 2 then Inl (ResourceExhausted ''429'')
                             else Inl (OtherException ''bad request'')),
      isspace = (\<lambda>c. c = CHR '' ''), walk = [], read_file = (\<lambda>d f. Inr []),
      relpath = (\<lambda>d f. f), search = (\<lambda>v. Inr []), generate_content = (\<lambda>p. Inr [])\<rparr>
     ''q'' 5 5
     \<lparr>gemini_model = None, qdrant_client_instance = None, index = [],
      embed_calls = 0, trace = []\<rparr>
   = (None :: nat option,
      \<lparr>gemini_model = None, qdrant_client_instance = None, index = [],
       embed_calls = 3,
       trace = [EmbedContent ''q'', Sleep 5, EmbedContent ''q'', Sleep 5, EmbedContent ''q'']\<rparr>)
   \<and> generate_embedding
     \<lparr>embed_content = (\<lambda>k t. Inl (ResourceExhausted ''429'')),
      isspace = (\<lambda>c. c = CHR '' ''), walk = [], read_file = (\<lambda>d f. Inr []),
      relpath = (\<lambda>d f. f), search = (\<lambda>v. Inr []), generate_content = (\<lambda>p. Inr [])\<rparr>
     ''q'' 5 5
     \<lparr>gemini_model = None, qdrant_client_instance = None, index = [],
      embed_calls = 0, trace = []\<rparr>
   = (None :: nat option,
      \<lparr>gemini_model = None, qdrant_client_instance = None, index = [],
       embed_calls = 5,
       trace = [EmbedContent ''q'', Sleep 5, EmbedContent ''q'', Sleep 5, EmbedContent ''q'',
                Sleep 5, EmbedContent ''q'', Sleep 5, EmbedContent ''q'', Sleep 5]\<rparr>)"
proof -
  let ?w = "\<lparr>gemini_model = None, qdrant_client_instance = None, index = [],
      embed_calls = 0, trace = []\<rparr> :: (char, nat) world"
  let ?e1 = "\<lparr>embed_content = (\<lambda>k t. if k < 2 then Inl (ResourceExhausted ''429'')
                             else Inl (OtherException ''bad request'')),
      isspace = (\<lambda>c. c = CHR '' ''), walk = [], read_file = (\<lambda>d f. Inr []),
      relpath = (\<lambda>d f. f), search = (\<lambda>v. Inr []), generate_content = (\<lambda>p. Inr [])\<rparr>
      :: (char, nat) env"
  let ?e2 = "\<lparr>embed_content = (\<lambda>k t. Inl (ResourceExhausted ''429'')),
      isspace = (\<lambda>c. c = CHR '' ''), walk = [], read_file = (\<lambda>d f. Inr []),
      relpath = (\<lambda>d f. f), search = (\<lambda>v. Inr []), generate_content = (\<lambda>p. Inr [])\<rparr>
      :: (char, nat) env"
  have a: "\<forall>j<2. rate_limited ?e1 (embed_calls ?w + j) ''q''"
    by (simp add: rate_limited_def)
  have b: "\<not> rate_limited ?e1 (embed_calls ?w + 2) ''q''"
    by (simp add: rate_limited_def)
  have c: "\<forall>j < nat 5. rate_limited ?e2 (embed_calls ?w + j) ''q''"
    by (simp add: rate_limited_def)
  note policy1 = generate_embedding_retry_policy[of ?e1 "''q''" 5 5 ?w]
  note policy2 = generate_embedding_retry_policy[of ?e2 "''q''" 5 5 ?w]
  have "(2 :: nat) < nat 5" by simp
  with policy1[THEN conjunct2, THEN conjunct2, THEN conjunct2, THEN conjunct1, rule_format, of 2] a b
  have first: "generate_embedding ?e1 ''q'' 5 5 ?w =
      (None, ?w\<lparr>embed_calls := 3,
         trace := [EmbedContent ''q'', Sleep 5, EmbedContent ''q'', Sleep 5, EmbedContent ''q'']\<rparr>)"
    by (simp add: numeral_2_eq_2)
  from policy2[THEN conjunct2, THEN conjunct2, THEN conjunct2, THEN conjunct2, rule_format] c
  have second: "generate_embedding ?e2 ''q'' 5 5 ?w =
      (None, ?w\<lparr>embed_calls := 5,
         trace := [EmbedContent ''q'', Sleep 5, EmbedContent ''q'', Sleep 5, EmbedContent ''q'',
                Sleep 5, EmbedContent ''q'', Sleep 5, EmbedContent ''q'', Sleep 5]\<rparr>)"
    by (simp add: eval_nat_numeral)
  from first second show ?thesis by simp
qed

subsection \<open>The index client\<close>

text \<open>
  \<open>get_qdrant_client\<close> never returns \<open>None\<close>: it builds the client when there is
  none.
\<close>

lemma get_qdrant_client_some:
  "fst (get_qdrant_client w) = Some QdrantClient"
  by (cases "qdrant_client_instance w"; cases "the (qdrant_client_instance w)")
     (auto simp: get_qdrant_client_def log_event_def Let_def)

lemma get_qdrant_client_world:
  "snd (get_qdrant_client w) =
     (if qdrant_client_instance w = None
      then log_event NewClient (w\<lparr>qdrant_client_instance := Some QdrantClient\<rparr>)
      else w)"
  by (simp add: get_qdrant_client_def Let_def)

subsection \<open>The ingestion run\<close>

text \<open>
  An embedding call adds requests and sleeps to the trace and leaves the rest of the
  world alone.
\<close>

lemma attempts_trace:
  "\<exists>evs. trace (snd (embedding_attempts env t delay n w)) = trace w @ evs
         \<and> list_all embed_event evs"
proof (induction n arbitrary: w)
  case 0
  show ?case by simp
next
  case (Suc n)
  let ?w1 = "log_event (Sleep delay) (log_event (EmbedContent t) (w\<lparr>embed_calls := Suc (embed_calls w)\<rparr>))"
  obtain evs where evs: "trace (snd (embedding_attempts env t delay n ?w1)) = trace ?w1 @ evs"
      "list_all embed_event evs"
    using Suc.IH[of ?w1] by blast
  show ?case
  proof (cases "embed_content env (embed_calls w) t")
    case (Inr v)
    then show ?thesis by (simp add: Let_def log_event_def)
  next
    case (Inl e)
    show ?thesis
    proof (cases "is_resource_exhausted e")
      case True
      with Inl evs show ?thesis
        by (intro exI[of _ "[EmbedContent t, Sleep delay] @ evs"]) (simp add: Let_def log_event_def)
    next
      case False
      with Inl show ?thesis by (simp add: Let_def log_event_def)
    qed
  qed
qed

lemma attempts_frame:
  "gemini_model (snd (embedding_attempts env t delay n w)) = gemini_model w
   \<and> qdrant_client_instance (snd (embedding_attempts env t delay n w)) = qdrant_client_instance w
   \<and> index (snd (embedding_attempts env t delay n w)) = index w"
proof (induction n arbitrary: w)
  case 0
  show ?case by simp
next
  case (Suc n)
  let ?w1 = "log_event (Sleep delay) (log_event (EmbedContent t) (w\<lparr>embed_calls := Suc (embed_calls w)\<rparr>))"
  note ih = Suc.IH[of ?w1]
  show ?case
  proof (cases "embed_content env (embed_calls w) t")
    case (Inr v)
    then show ?thesis by (simp add: Let_def log_event_def)
  next
    case (Inl e)
    show ?thesis
    proof (cases "is_resource_exhausted e")
      case True
      with Inl ih show ?thesis by (simp add: Let_def log_event_def)
    next
      case False
      with Inl show ?thesis by (simp add: Let_def log_event_def)
    qed
  qed
qed

lemma generate_embedding_trace:
  "\<exists>evs. trace (snd (generate_embedding env t m delay w)) = trace w @ evs
         \<and> list_all embed_event evs"
  unfolding generate_embedding_def by (rule attempts_trace)

lemma generate_embedding_frame:
  "gemini_model (snd (generate_embedding env t m delay w)) = gemini_model w
   \<and> qdrant_client_instance (snd (generate_embedding env t m delay w)) = qdrant_client_instance w
   \<and> index (snd (generate_embedding env t m delay w)) = index w"
  unfolding generate_embedding_def by (rule attempts_frame)

text \<open>
  A chunk strips to nothing exactly when it is empty or all its characters are
  whitespace.
\<close>

lemma dropWhile_all_iff: "(\<forall>x\<in>set (dropWhile p s). p x) \<longleftrightarrow> dropWhile p s = []"
proof
  assume all: "\<forall>x\<in>set (dropWhile p s). p x"
  show "dropWhile p s = []"
  proof (rule ccontr)
    assume ne: "dropWhile p s \<noteq> []"
    then have "\<not> p (hd (dropWhile p s))" by (rule hd_dropWhile)
    moreover have "hd (dropWhile p s) \<in> set (dropWhile p s)" using ne by (rule hd_in_set)
    ultimately show False using all by blast
  qed
next
  assume e: "dropWhile p s = []"
  show "\<forall>x\<in>set (dropWhile p s). p x" unfolding e by simp
qed

lemma strip_empty_iff: "strip sp s = [] \<longleftrightarrow> list_all sp s"
proof -
  have "strip sp s = [] \<longleftrightarrow> dropWhile sp (rev (dropWhile sp s)) = []"
    by (simp add: strip_def)
  also have "\<dots> \<longleftrightarrow> (\<forall>x\<in>set (dropWhile sp s). sp x)"
    by (simp add: dropWhile_eq_Nil_conv)
  also have "\<dots> \<longleftrightarrow> dropWhile sp s = []"
    by (rule dropWhile_all_iff)
  also have "\<dots> \<longleftrightarrow> list_all sp s"
    by (simp add: dropWhile_eq_Nil_conv list_all_iff)
  finally show ?thesis .
qed

lemma embed_chunks_ids_ok:
  "ids_ok env st \<Longrightarrow> ids_ok env (embed_chunks env d f ics st)"
proof (induction ics arbitrary: st)
  case Nil
  then show ?case by simp
next
  case (Cons ic ics)
  obtain i chunk where ic: "ic = (i, chunk)" by (cases ic)
  show ?case
  proof (cases "strip (isspace env) chunk = []")
    case True
    with Cons ic show ?thesis by simp
  next
    case False
    obtain r w' where g: "generate_embedding env chunk default_max_retries default_delay (outside st) = (r, w')"
      by (cases "generate_embedding env chunk default_max_retries default_delay (outside st)")
    show ?thesis
    proof (cases r)
      case None
      have "ids_ok env (st\<lparr>outside := w'\<rparr>)"
        using Cons.prems by (simp add: ids_ok_def)
      from Cons.IH[OF this] show ?thesis
        using False g None ic by simp
    next
      case (Some v)
      let ?st = "\<lparr>points = points st @
                    [\<lparr>point_id = point_id_counter st, vector = v,
                      payload = \<lparr>pl_file_path = relpath env d f, pl_chunk_index = i, pl_text = chunk\<rparr>\<rparr>],
                  point_id_counter = point_id_counter st + 1,
                  outside = w'\<rparr>"
      have "ids_ok env ?st"
        using Cons.prems False by (simp add: ids_ok_def)
      from Cons.IH[OF this] show ?thesis
        using False g Some ic by simp
    qed
  qed
qed

lemma embed_chunks_blank:
  "list_all (\<lambda>ic. strip (isspace env) (snd ic) = []) ics \<Longrightarrow> embed_chunks env d f ics st = st"
proof (induction ics arbitrary: st)
  case Nil
  show ?case by simp
next
  case (Cons ic ics)
  obtain i chunk where ic: "ic = (i, chunk)" by (cases ic)
  from Cons show ?case by (simp add: ic)
qed

lemma embed_chunks_trace:
  "\<exists>evs. trace (outside (embed_chunks env d f ics st)) = trace (outside st) @ evs
         \<and> list_all embed_event evs"
proof (induction ics arbitrary: st)
  case Nil
  show ?case by simp
next
  case (Cons ic ics)
  obtain i chunk where ic: "ic = (i, chunk)" by (cases ic)
  show ?case
  proof (cases "strip (isspace env) chunk = []")
    case True
    with Cons ic show ?thesis by simp
  next
    case False
    obtain r w' where g: "generate_embedding env chunk default_max_retries default_delay (outside st) = (r, w')"
      by (cases "generate_embedding env chunk default_max_retries default_delay (outside st)")
    obtain evs1 where e1: "trace w' = trace (outside st) @ evs1" "list_all embed_event evs1"
      using generate_embedding_trace[of env chunk default_max_retries default_delay "outside st"] g
      by auto
    show ?thesis
    proof (cases r)
      case None
      obtain evs2 where e2: "trace (outside (embed_chunks env d f ics (st\<lparr>outside := w'\<rparr>)))
                              = trace (outside (st\<lparr>outside := w'\<rparr>)) @ evs2" "list_all embed_event evs2"
        using Cons.IH by blast
      with e1 show ?thesis
        using False g None ic by (intro exI[of _ "evs1 @ evs2"]) simp
    next
      case (Some v)
      let ?st = "\<lparr>points = points st @
                    [\<lparr>point_id = point_id_counter st, vector = v,
                      payload = \<lparr>pl_file_path = relpath env d f, pl_chunk_index = i, pl_text = chunk\<rparr>\<rparr>],
                  point_id_counter = point_id_counter st + 1,
                  outside = w'\<rparr>"
      obtain evs2 where e2: "trace (outside (embed_chunks env d f ics ?st))
                              = trace (outside ?st) @ evs2" "list_all embed_event evs2"
        using Cons.IH by blast
      with e1 show ?thesis
        using False g Some ic by (intro exI[of _ "evs1 @ evs2"]) simp
    qed
  qed
qed

lemma embed_chunks_frame:
  "index (outside (embed_chunks env d f ics st)) = index (outside st)"
proof (induction ics arbitrary: st)
  case Nil
  show ?case by simp
next
  case (Cons ic ics)
  obtain i chunk where ic: "ic = (i, chunk)" by (cases ic)
  obtain r w' where g: "generate_embedding env chunk default_max_retries default_delay (outside st) = (r, w')"
    by (cases "generate_embedding env chunk default_max_retries default_delay (outside st)")
  have w': "index w' = index (outside st)"
    using generate_embedding_frame[of env chunk default_max_retries default_delay "outside st"] g
    by simp
  show ?case
  proof (cases "strip (isspace env) chunk = []")
    case True
    then show ?thesis by (simp add: ic Cons.IH)
  next
    case False
    then show ?thesis
      by (cases r) (simp_all add: ic g Cons.IH w')
  qed
qed

lemma chunk_text_configured:
  "\<exists>cs. chunk_text content MAX_CHUNK_SIZE OVERLAP_SIZE = Some cs"
proof (cases "content = []")
  case True
  then show ?thesis by (simp add: chunk_text_def)
next
  case False
  then show ?thesis
    using chunk_text_returns[of content OVERLAP_SIZE MAX_CHUNK_SIZE]
    by (simp add: MAX_CHUNK_SIZE_def OVERLAP_SIZE_def)
qed

text \<open>What the walk keeps: a property of runs that the loop over chunks preserves.\<close>

lemma process_file_keeps:
  assumes step: "\<And>d f ics st. P st \<Longrightarrow> P (embed_chunks env d f ics st)"
    and "P st"
  shows "\<exists>st'. process_file env d f st = Some st' \<and> P st'"
proof (cases "endswith f ''.md'' \<or> endswith f ''.mdx''")
  case False
  with assms(2) show ?thesis by (simp add: process_file_def)
next
  case True
  show ?thesis
  proof (cases "read_file env d f")
    case (Inl e)
    with True assms(2) show ?thesis by (simp add: process_file_def)
  next
    case (Inr content)
    obtain cs where "chunk_text content MAX_CHUNK_SIZE OVERLAP_SIZE = Some cs"
      using chunk_text_configured by blast
    with True Inr step[OF assms(2)] show ?thesis by (simp add: process_file_def)
  qed
qed

lemma process_files_keeps:
  assumes step: "\<And>d f ics st. P st \<Longrightarrow> P (embed_chunks env d f ics st)"
    and "P st"
  shows "\<exists>st'. process_files env d files st = Some st' \<and> P st'"
  using assms(2)
proof (induction files arbitrary: st)
  case Nil
  then show ?case by simp
next
  case (Cons f files)
  obtain st1 where "process_file env d f st = Some st1" "P st1"
    using process_file_keeps[of P env st d f] step Cons.prems by blast
  with Cons.IH[of st1] show ?case by simp
qed

lemma process_walk_keeps:
  assumes step: "\<And>d f ics st. P st \<Longrightarrow> P (embed_chunks env d f ics st)"
    and "P st"
  shows "\<exists>st'. process_walk env dirs st = Some st' \<and> P st'"
  using assms(2)
proof (induction dirs arbitrary: st)
  case Nil
  then show ?case by simp
next
  case (Cons dir dirs)
  obtain d files where dir: "dir = (d, files)" by (cases dir)
  obtain st1 where "process_files env d files st = Some st1" "P st1"
    using process_files_keeps[of P env st d files] step Cons.prems by blast
  with Cons.IH[of st1] show ?case by (simp add: dir)
qed

lemma embed_chunks_run:
  assumes "ids_ok env st \<and> index (outside st) = ix
           \<and> (\<exists>evs. trace (outside st) = tr @ evs \<and> list_all embed_event evs)"
  shows "ids_ok env (embed_chunks env d f ics st) \<and> index (outside (embed_chunks env d f ics st)) = ix
           \<and> (\<exists>evs. trace (outside (embed_chunks env d f ics st)) = tr @ evs \<and> list_all embed_event evs)"
proof -
  obtain evs where evs: "trace (outside st) = tr @ evs" "list_all embed_event evs"
    using assms by blast
  obtain evs' where evs': "trace (outside (embed_chunks env d f ics st)) = trace (outside st) @ evs'"
      "list_all embed_event evs'"
    using embed_chunks_trace by blast
  have "trace (outside (embed_chunks env d f ics st)) = tr @ (evs @ evs')"
    using evs evs' by simp
  moreover have "list_all embed_event (evs @ evs')"
    using evs evs' by simp
  ultimately show ?thesis
    using assms embed_chunks_ids_ok[of env st d f ics] embed_chunks_frame[of env d f ics st]
    by blast
qed

lemma process_walk_run:
  "\<exists>st evs. process_walk env dirs \<lparr>points = [], point_id_counter = 0, outside = w\<rparr> = Some st
      \<and> ids_ok env st \<and> index (outside st) = index w
      \<and> trace (outside st) = trace w @ evs \<and> list_all embed_event evs"
proof -
  let ?P = "\<lambda>st. ids_ok env st \<and> index (outside st) = index w
           \<and> (\<exists>evs. trace (outside st) = trace w @ evs \<and> list_all embed_event evs)"
  have init: "?P \<lparr>points = [], point_id_counter = 0, outside = w\<rparr>"
    by (simp add: ids_ok_def)
  have step: "?P (embed_chunks env d f ics st)" if "?P st" for d f ics st
    using that by (rule embed_chunks_run)
  have "\<exists>st'. process_walk env dirs \<lparr>points = [], point_id_counter = 0, outside = w\<rparr> = Some st'
                \<and> ?P st'"
    using step init by (rule process_walk_keeps[where P = ?P])
  then show ?thesis by blast
qed

lemma ids_from_zero:
  assumes "map point_id ps = map int [0..<length ps]"
  shows "distinct (map point_id ps) \<and> sorted_wrt (<) (map point_id ps)
         \<and> (\<forall>p\<in>set ps. 0 \<le> point_id p)"
proof (intro conjI ballI)
  show "distinct (map point_id ps)"
    unfolding assms by (simp add: distinct_map)
  show "sorted_wrt (<) (map point_id ps)"
    unfolding assms by (simp add: sorted_wrt_map)
next
  fix p
  assume "p \<in> set ps"
  then have "point_id p \<in> set (map point_id ps)" by simp
  then have "point_id p \<in> set (map int [0..<length ps])" unfolding assms .
  then show "0 \<le> point_id p" by auto
qed

text \<open>A blank file leaves the run as it was.\<close>

lemma process_file_blank:
  assumes "endswith f ''.md'' \<or> endswith f ''.mdx'' \<longrightarrow> blank_file env d f"
  shows "process_file env d f st = Some st"
proof (cases "endswith f ''.md'' \<or> endswith f ''.mdx''")
  case False
  then show ?thesis by (simp add: process_file_def)
next
  case True
  with assms have blank: "blank_file env d f" by blast
  show ?thesis
  proof (cases "read_file env d f")
    case (Inl e)
    with True show ?thesis by (simp add: process_file_def)
  next
    case (Inr content)
    obtain cs where cs: "chunk_text content MAX_CHUNK_SIZE OVERLAP_SIZE = Some cs"
      using chunk_text_configured by blast
    have "\<forall>c\<in>set cs. strip (isspace env) c = []"
      using blank Inr cs by (simp add: blank_file_def list_all_iff)
    then have "list_all (\<lambda>ic. strip (isspace env) (snd ic) = []) (enumerate_chunks cs)"
      by (auto simp: list_all_iff enumerate_chunks_def dest: set_zip_rightD)
    then have "embed_chunks env d f (enumerate_chunks cs) st = st"
      by (rule embed_chunks_blank)
    with True Inr cs show ?thesis by (simp add: process_file_def)
  qed
qed

lemma process_files_blank:
  assumes "\<forall>f\<in>set files. endswith f ''.md'' \<or> endswith f ''.mdx'' \<longrightarrow> blank_file env d f"
  shows "process_files env d files st = Some st"
  using assms
proof (induction files)
  case Nil
  show ?case by simp
next
  case (Cons f files)
  have "process_file env d f st = Some st"
    using Cons.prems by (intro process_file_blank) simp
  moreover have "process_files env d files st = Some st"
    using Cons.prems by (intro Cons.IH) simp
  ultimately show ?case by simp
qed

lemma process_walk_blank:
  assumes "\<forall>(d, files)\<in>set dirs. \<forall>f\<in>set files.
             endswith f ''.md'' \<or> endswith f ''.mdx'' \<longrightarrow> blank_file env d f"
  shows "process_walk env dirs st = Some st"
  using assms
proof (induction dirs)
  case Nil
  show ?case by simp
next
  case (Cons dir dirs)
  obtain d files where dir: "dir = (d, files)" by (cases dir)
  have "process_files env d files st = Some st"
    using Cons.prems by (intro process_files_blank) (simp add: dir)
  moreover have "process_walk env dirs st = Some st"
    using Cons.prems by (intro Cons.IH) simp
  ultimately show ?case by (simp add: dir)
qed

text \<open>
  The rest of the run, from \<open>points = []\<close> on, taken by itself. It always returns;
  the ids of the accumulated points are \<open>0, 1, \<dots>, N - 1\<close> in the order the points
  were produced, the counter ends at the number of points \<open>N\<close>, every point holds a
  chunk that is not blank, and the one upsert, made when there are points, carries
  exactly these points. Over a blank corpus it accumulates no point and makes no call
  at all.
\<close>

lemma ingest_points_ids:
  "\<exists>st evs. ingest_points env w = Some st
     \<and> map point_id (points st) = map int [0..<length (points st)]
     \<and> point_id_counter st = int (length (points st))
     \<and> distinct (map point_id (points st))
     \<and> sorted_wrt (<) (map point_id (points st))
     \<and> (\<forall>p\<in>set (points st). 0 \<le> point_id p
            \<and> strip (isspace env) (pl_text (payload p)) \<noteq> [])
     \<and> list_all embed_event evs
     \<and> trace (outside st) =
           trace w @ evs
           @ (if points st = [] then [] else [Upsert QDRANT_COLLECTION_NAME (points st)])"
proof -
  obtain st evs where run:
      "process_walk env (walk env) \<lparr>points = [], point_id_counter = 0, outside = w\<rparr>
         = Some st"
      "ids_ok env st" "trace (outside st) = trace w @ evs"
      "list_all embed_event evs"
    using process_walk_run[of env "walk env" w] by blast
  let ?st = "if points st \<noteq> []
          then st\<lparr>outside :=
                 log_event (Upsert QDRANT_COLLECTION_NAME (points st))
                   ((outside st)\<lparr>index :=
                      index_upsert QDRANT_COLLECTION_NAME (points st) (index (outside st))\<rparr>)\<rparr>
          else st"
  have res: "ingest_points env w = Some ?st"
    using run(1) by (simp add: ingest_points_def)
  have pts: "points ?st = points st" "point_id_counter ?st = point_id_counter st"
    by simp_all
  have ids: "map point_id (points st) = map int [0..<length (points st)]"
      "point_id_counter st = int (length (points st))"
      "\<forall>p\<in>set (points st). strip (isspace env) (pl_text (payload p)) \<noteq> []"
    using run(2) by (simp_all add: ids_ok_def list_all_iff)
  have tr: "trace (outside ?st) = trace w @ evs
           @ (if points ?st = [] then [] else [Upsert QDRANT_COLLECTION_NAME (points ?st)])"
    using run(3) by (simp add: log_event_def)
  show ?thesis
    using res ids ids_from_zero[OF ids(1)] tr run(4) unfolding pts
    by (intro exI[of _ ?st] exI[of _ evs]) (simp only: pts, blast)
qed

lemma ingest_points_blank:
  assumes "\<forall>(d, files)\<in>set (walk env). \<forall>f\<in>set files.
             endswith f ''.md'' \<or> endswith f ''.mdx'' \<longrightarrow> blank_file env d f"
  shows "ingest_points env w = Some \<lparr>points = [], point_id_counter = 0, outside = w\<rparr>"
proof -
  let ?st = "\<lparr>points = [], point_id_counter = 0, outside = w\<rparr>"
  have "process_walk env (walk env) ?st = Some ?st"
    using assms by (rule process_walk_blank)
  then show ?thesis
    by (simp add: ingest_points_def)
qed

text \<open>
  The run as a whole never gets that far. The setup makes the \<open>recreate_collection\<close>
  call and then awaits its plain result, which raises \<open>TypeError\<close> outside any
  handler: every run ends there, with the collection recreated and empty, whatever the
  corpus and whatever the embedding service answers.
\<close>

lemma ingest_setup_raises:
  "ingest_setup w =
     (Inl (TypeError ''object can't be used in 'await' expression''),
      log_event (RecreateCollection QDRANT_COLLECTION_NAME 768)
        ((snd (get_qdrant_client w))
           \<lparr>index := index_recreate_collection QDRANT_COLLECTION_NAME 768 (index w)\<rparr>))"
proof -
  obtain c w1 where g: "get_qdrant_client w = (c, w1)" by (cases "get_qdrant_client w")
  have c: "c = Some QdrantClient" using get_qdrant_client_some[of w] g by simp
  have ix: "index w1 = index w"
    using get_qdrant_client_world[of w] g by (simp add: log_event_def split: if_splits)
  show ?thesis
    by (simp add: ingest_setup_def g c ix await_plain_def Let_def)
qed

lemma ingest_book_content_raises:
  "ingest_book_content env w =
     Some (Inl (TypeError ''object can't be used in 'await' expression'',
                log_event (RecreateCollection QDRANT_COLLECTION_NAME 768)
                  ((snd (get_qdrant_client w))
                     \<lparr>index := index_recreate_collection QDRANT_COLLECTION_NAME 768 (index w)\<rparr>)))"
  by (simp add: ingest_book_content_def ingest_setup_raises)



subsection \<open>The two collection setups\<close>

text \<open>
  The ingestion path: the \<open>recreate_collection\<close> call is made on every run, and
  after it the collection exists with size 768 and no points, whatever the index held.
\<close>

lemma create_absent_lookup:
  assumes "name \<notin> set (index_get_collections ix)"
  shows "map_of (index_create_collection name vsize ix) name
         = Some \<lparr>vector_size = vsize, stored = []\<rparr>"
proof -
  have "map_of ix name = None"
    using assms by (simp add: index_get_collections_def map_of_eq_None_iff)
  then show ?thesis
    using assms by (simp add: index_create_collection_def map_add_def)
qed

lemma delete_absent:
  "name \<notin> set (index_get_collections (index_delete_collection name ix))"
  by (auto simp: index_get_collections_def index_delete_collection_def)

lemma recreate_lookup:
  "map_of (index_recreate_collection name vsize ix) name
   = Some \<lparr>vector_size = vsize, stored = []\<rparr>"
  unfolding index_recreate_collection_def
  by (rule create_absent_lookup[OF delete_absent])

lemma ingest_setup_recreates:
  "map_of (index (snd (ingest_setup w))) QDRANT_COLLECTION_NAME
   = Some \<lparr>vector_size = 768, stored = []\<rparr>"
  by (simp add: ingest_setup_raises log_event_def recreate_lookup)

text \<open>
  The startup path: the \<open>get_collections\<close> call is made and its plain result is
  awaited, which raises \<open>TypeError\<close>. The test for the collection's name and the
  \<open>create_collection\<close> call with size 1536 that follow in the source are never
  reached: the index is left as it was.
\<close>

lemma initialize_raises:
  "initialize_qdrant_collection w =
     (Inl (TypeError ''object can't be used in 'await' expression''),
      log_event GetCollections (snd (get_qdrant_client w)))"
proof -
  obtain c w1 where g: "get_qdrant_client w = (c, w1)" by (cases "get_qdrant_client w")
  have c: "c = Some QdrantClient" using get_qdrant_client_some[of w] g by simp
  show ?thesis
    by (simp add: initialize_qdrant_collection_def g c await_plain_def Let_def)
qed

lemma initialize_never_creates:
  "index (snd (initialize_qdrant_collection w)) = index w
   \<and> trace (snd (initialize_qdrant_collection w)) =
       trace w @ (if qdrant_client_instance w = None then [NewClient] else [])
         @ [GetCollections]"
  by (simp add: initialize_raises get_qdrant_client_world log_event_def)

text \<open>
  Claim C9, at one index. The index holds no collection. The startup path lists the
  collections and ends with \<open>TypeError\<close>, creating nothing; the ingestion path
  recreates the collection with size 768 and ends with the same \<open>TypeError\<close>.
\<close>

theorem startup_setup_raises:
  "initialize_qdrant_collection
     (\<lparr>gemini_model = None, qdrant_client_instance = None, index = [],
       embed_calls = 0, trace = []\<rparr> :: (char, nat) world)
   = (Inl (TypeError ''object can't be used in 'await' expression''),
      \<lparr>gemini_model = None, qdrant_client_instance = Some QdrantClient, index = [],
       embed_calls = 0, trace = [NewClient, GetCollections]\<rparr>)
   \<and> ingest_setup
     (\<lparr>gemini_model = None, qdrant_client_instance = None, index = [],
       embed_calls = 0, trace = []\<rparr> :: (char, nat) world)
   = (Inl (TypeError ''object can't be used in 'await' expression''),
      \<lparr>gemini_model = None, qdrant_client_instance = Some QdrantClient,
       index = [(''book_content'', \<lparr>vector_size = 768, stored = []\<rparr>)],
       embed_calls = 0, trace = [NewClient, RecreateCollection ''book_content'' 768]\<rparr>)"
  by (simp add: initialize_qdrant_collection_def ingest_setup_def get_qdrant_client_def
        await_plain_def log_event_def Let_def QDRANT_COLLECTION_NAME_def
        index_recreate_collection_def index_create_collection_def
        index_delete_collection_def index_get_collections_def)

subsection \<open>The prompt of the chat endpoint\<close>








subsection \<open>The guards of the chat endpoint\<close>


lemma chat_never_reports_index:
  "fst (chat_with_rag env request w) \<noteq> HTTPException 500 ''Qdrant client not initialized.''"
proof (cases "gemini_model w = None")
  case True
  then show ?thesis by (simp add: chat_with_rag_def)
next
  case False
  obtain c w1 where g1: "get_qdrant_client w = (c, w1)" by (cases "get_qdrant_client w")
  have c: "c = Some QdrantClient"
    using get_qdrant_client_some[of w] g1 by simp
  obtain r w2 where emb: "generate_embedding env (question request) default_max_retries
      default_delay w1 = (r, w2)"
    by (cases "generate_embedding env (question request) default_max_retries default_delay w1")
  obtain c2 w3 where g2: "get_qdrant_client w2 = (c2, w3)" by (cases "get_qdrant_client w2")
  show ?thesis
    using False
    by (cases r) (simp_all add: chat_with_rag_def g1 c emb g2 Let_def split: sum.splits)
qed








subsection \<open>Sign-up and the current user\<close>

lemma signup_keeps_entry:
  "db name = Some entry \<Longrightarrow> snd (signup h user_data db) name = Some entry"
  by (auto simp: signup_def Let_def)

lemma signups_keep_entry:
  "db name = Some entry \<Longrightarrow> signups h requests db name = Some entry"
proof (induction requests arbitrary: db)
  case Nil
  then show ?case by simp
next
  case (Cons user_data requests)
  have "snd (signup h user_data db) name = Some entry"
    using Cons.prems by (rule signup_keeps_entry)
  then show ?case
    by (simp add: Cons.IH)
qed

lemma read_users_me_entry:
  assumes "jwt_decode token = Inr token_payload" "token_payload ''sub'' = Some name"
    "db name = Some entry"
  shows "read_users_me jwt_decode token db
         = Inr \<lparr>username = name, email = db_email entry, full_name = Some (db_full_name entry)\<rparr>"
  using assms by (simp add: read_users_me_def decode_access_token_def)

text \<open>
  Claim C10. A sign-up that succeeds (the user name was free) returns a user whose
  \<open>full_name\<close> is the submitted user name and stores an entry whose \<open>full_name\<close> is
  the submitted user name: the request has no field for a full name. After any further
  sign-up requests, \<open>read_users_me\<close> with a token whose payload names this user
  reports the user name, the e-mail address given at sign-up, and the user name again
  as \<open>full_name\<close>.
\<close>

theorem signup_full_name_is_username:
  assumes "signup h user_data db = (Inr created, db')"
  shows "db (uc_username user_data) = None
     \<and> username created = uc_username user_data
     \<and> full_name created = Some (uc_username user_data)
     \<and> db' (uc_username user_data)
         = Some \<lparr>db_hashed_password = h (uc_password user_data),
                 db_email = uc_email user_data,
                 db_full_name = uc_username user_data\<rparr>
     \<and> (\<forall>requests jwt_decode token token_payload.
           jwt_decode token = Inr token_payload
           \<and> token_payload ''sub'' = Some (uc_username user_data) \<longrightarrow>
           read_users_me jwt_decode token (signups h requests db')
             = Inr \<lparr>username = uc_username user_data,
                    email = uc_email user_data,
                    full_name = Some (uc_username user_data)\<rparr>)"
proof -
  have fresh: "db (uc_username user_data) = None"
    using assms by (auto simp: signup_def Let_def split: if_splits)
  then have created: "created = \<lparr>username = uc_username user_data, email = uc_email user_data,
                          full_name = Some (uc_username user_data)\<rparr>"
    and db': "db' = db(uc_username user_data \<mapsto>
                 \<lparr>db_hashed_password = h (uc_password user_data),
                  db_email = uc_email user_data,
                  db_full_name = uc_username user_data\<rparr>)"
    using assms by (simp_all add: signup_def Let_def)
  let ?entry = "\<lparr>db_hashed_password = h (uc_password user_data),
                  db_email = uc_email user_data,
                  db_full_name = uc_username user_data\<rparr>"
  have stored: "db' (uc_username user_data) = Some ?entry"
    by (simp add: db')
  have me: "read_users_me jwt_decode token (signups h requests db')
             = Inr \<lparr>username = uc_username user_data,
                    email = uc_email user_data,
                    full_name = Some (uc_username user_data)\<rparr>"
    if "jwt_decode token = Inr token_payload"
       "token_payload ''sub'' = Some (uc_username user_data)"
    for requests jwt_decode token and token_payload :: "string \<rightharpoonup> string"
  proof -
    have kept: "signups h requests db' (uc_username user_data) = Some ?entry"
      using stored
      by (rule signups_keep_entry[where db = db' and name = "uc_username user_data"
            and entry = ?entry])
    show ?thesis
      using that kept
        read_users_me_entry[where jwt_decode = jwt_decode and token = token
          and token_payload = token_payload and name = "uc_username user_data"
          and db = "signups h requests db'" and entry = ?entry]
      by simp
  qed
  show ?thesis
    using fresh created stored me by simp
qed

theorem signup_full_name_is_username_witness:
  "fst (signup rev \<lparr>uc_username = ''alice'', uc_email = ''a@example.org'', uc_password = ''pw''\<rparr>
          Map.empty)
     = Inr \<lparr>username = ''alice'', email = ''a@example.org'', full_name = Some ''alice''\<rparr>
   \<and> read_users_me (\<lambda>t. Inr [''sub'' \<mapsto> ''alice'']) ''token''
       (signups rev
          [\<lparr>uc_username = ''alice'', uc_email = ''other@example.org'', uc_password = ''x''\<rparr>,
           \<lparr>uc_username = ''bob'', uc_email = ''b@example.org'', uc_password = ''y''\<rparr>]
          (snd (signup rev
                 \<lparr>uc_username = ''alice'', uc_email = ''a@example.org'', uc_password = ''pw''\<rparr>
                 Map.empty)))
     = Inr \<lparr>username = ''alice'', email = ''a@example.org'', full_name = Some ''alice''\<rparr>"
proof -
  let ?u = "\<lparr>uc_username = ''alice'', uc_email = ''a@example.org'', uc_password = ''pw''\<rparr>"
  let ?created = "\<lparr>username = ''alice'', email = ''a@example.org'', full_name = Some ''alice''\<rparr>"
  have run: "signup rev ?u Map.empty = (Inr ?created, snd (signup rev ?u Map.empty))"
    by (simp add: signup_def Let_def)
  note facts = signup_full_name_is_username[OF run]
  have hyp: "(\<lambda>t :: string. Inr [''sub'' \<mapsto> ''alice''] :: exn + (string \<rightharpoonup> string)) ''token''
               = Inr [''sub'' \<mapsto> ''alice'']
             \<and> [''sub'' \<mapsto> ''alice''] ''sub'' = Some (uc_username ?u)"
    by simp
  have "read_users_me (\<lambda>t. Inr [''sub'' \<mapsto> ''alice'']) ''token''
       (signups rev
          [\<lparr>uc_username = ''alice'', uc_email = ''other@example.org'', uc_password = ''x''\<rparr>,
           \<lparr>uc_username = ''bob'', uc_email = ''b@example.org'', uc_password = ''y''\<rparr>]
          (snd (signup rev ?u Map.empty)))
     = Inr \<lparr>username = uc_username ?u, email = uc_email ?u, full_name = Some (uc_username ?u)\<rparr>"
    using hyp
      facts[THEN conjunct2, THEN conjunct2, THEN conjunct2, THEN conjunct2, rule_format,
        where jwt_decode = "\<lambda>t. Inr [''sub'' \<mapsto> ''alice'']" and token = "''token''"
        and token_payload = "[''sub'' \<mapsto> ''alice'']"
        and requests = "[\<lparr>uc_username = ''alice'', uc_email = ''other@example.org'', uc_password = ''x''\<rparr>,
           \<lparr>uc_username = ''bob'', uc_email = ''b@example.org'', uc_password = ''y''\<rparr>]"]
    by simp
  moreover have "fst (signup rev ?u Map.empty) = Inr ?created"
    by (simp add: signup_def Let_def)
  ultimately show ?thesis
    by simp
qed

end
